theory Spec2Isabelle
  imports Main
begin

section \<open>Board model of the Go program\<close>

text \<open>
  The program keeps the grid in \<^verbatim>\<open>type board [3][3]string\<close>. A Go array is a value:
  it has exactly three rows of three cells, and it is copied when it is passed to a
  function. A row is modelled as a triple of strings and the board as a triple of
  rows, so that every value of the type is a board the program can hold. Indices and
  scores are Go \<^verbatim>\<open>int\<close>s; scores are only compared and the depth counter is only passed
  on, so both are modelled as \<^typ>\<open>int\<close>.
\<close>

type_synonym row = "string \<times> string \<times> string"
type_synonym board = "row \<times> row \<times> row"
type_synonym move = "int \<times> int"

definition playerX :: string where
  "playerX = ''X''"

definition playerO :: string where
  "playerO = ''O''"

definition emptyCell :: string where
  "emptyCell = '' ''"

definition MinInt32 :: int where
  "MinInt32 = - 2147483648"

definition MaxInt32 :: int where
  "MaxInt32 = 2147483647"

text \<open>
  Reading and writing one component of a three-element array. Go panics on an index
  outside \<open>0..2\<close>; every index the program uses is produced by a loop over \<open>0..2\<close>
  (see \<open>getAvailableMoves_in_range\<close> below), so the last branch is only ever reached
  with index \<open>2\<close>.
\<close>

fun nth3 :: "'a \<times> 'a \<times> 'a \<Rightarrow> int \<Rightarrow> 'a" where
  "nth3 (x0, x1, x2) i = (if i = 0 then x0 else if i = 1 then x1 else x2)"

fun upd3 :: "'a \<times> 'a \<times> 'a \<Rightarrow> int \<Rightarrow> 'a \<Rightarrow> 'a \<times> 'a \<times> 'a" where
  "upd3 (x0, x1, x2) i v =
     (if i = 0 then (v, x1, x2) else if i = 1 then (x0, v, x2) else (x0, x1, v))"

text \<open>\<^verbatim>\<open>b[r][c]\<close> and the assignment \<^verbatim>\<open>b[r][c] = v\<close>.\<close>

definition cell :: "board \<Rightarrow> int \<Rightarrow> int \<Rightarrow> string" where
  "cell b r c = nth3 (nth3 b r) c"

definition place :: "board \<Rightarrow> int \<Rightarrow> int \<Rightarrow> string \<Rightarrow> board" where
  "place b r c v = upd3 b r (upd3 (nth3 b r) c v)"

text \<open>The zero value of the array type (every cell the empty string).\<close>

definition zeroBoard :: board where
  "zeroBoard = (('''', '''', ''''), ('''', '''', ''''), ('''', '''', ''''))"

subsection \<open>initializeBoard, getAvailableMoves, checkWin, isBoardFull\<close>

text \<open>
  The two nested \<^verbatim>\<open>for\<close> loops over \<open>i, j = 0, 1, 2\<close> are folds over the index list
  \<open>[0, 1, 2]\<close>; the loop body is the folded function.
\<close>

definition indices :: "int list" where
  "indices = [0, 1, 2]"

definition initializeBoard :: board where
  "initializeBoard =
     foldl (\<lambda>b i. foldl (\<lambda>b j. place b i j emptyCell) b indices) zeroBoard indices"

definition getAvailableMoves :: "board \<Rightarrow> move list" where
  "getAvailableMoves b =
     foldl (\<lambda>moves i.
        foldl (\<lambda>moves j. if cell b i j = emptyCell then moves @ [(i, j)] else moves)
          moves indices)
       [] indices"

text \<open>
  \<^verbatim>\<open>checkWin\<close> returns from inside its loops; the chain of conditionals keeps the
  order of the source's tests (rows, columns, the two diagonals).
\<close>

definition checkWin :: "board \<Rightarrow> string \<Rightarrow> bool" where
  "checkWin b player =
     (if list_ex (\<lambda>i. cell b i 0 = player \<and> cell b i 1 = player \<and> cell b i 2 = player) indices
      then True
      else if list_ex (\<lambda>j. cell b 0 j = player \<and> cell b 1 j = player \<and> cell b 2 j = player) indices
      then True
      else if cell b 0 0 = player \<and> cell b 1 1 = player \<and> cell b 2 2 = player then True
      else if cell b 0 2 = player \<and> cell b 1 1 = player \<and> cell b 2 0 = player then True
      else False)"

definition isBoardFull :: "board \<Rightarrow> bool" where
  "isBoardFull b = (length (getAvailableMoves b) = 0)"

subsection \<open>evaluateBoard\<close>

definition evaluateBoard :: "board \<Rightarrow> int" where
  "evaluateBoard b =
     (if checkWin b playerO then 10
      else if checkWin b playerX then - 10
      else 0)"

subsection \<open>Facts about the board needed to define the search\<close>

text \<open>
  \<open>norm3 i\<close> is the component that \<open>nth3\<close> and \<open>upd3\<close> address with index \<open>i\<close>;
  \<open>all_cells\<close> lists the nine cells in row-major order, the order in which
  \<^verbatim>\<open>getAvailableMoves\<close> scans them.
\<close>

definition norm3 :: "int \<Rightarrow> int" where
  "norm3 i = (if i = 0 then 0 else if i = 1 then 1 else 2)"

definition all_cells :: "move list" where
  "all_cells = [(0, 0), (0, 1), (0, 2), (1, 0), (1, 1), (1, 2), (2, 0), (2, 1), (2, 2)]"

lemma norm3_idem [simp]: "norm3 (norm3 i) = norm3 i"
  by (simp add: norm3_def)

lemma norm3_range: "norm3 i \<in> {0, 1, 2}"
  by (simp add: norm3_def)

lemma cell_norm3: "cell b (norm3 r) (norm3 c) = cell b r c"
  by (cases b rule: prod_cases3; cases "fst b" rule: prod_cases3)
     (auto simp: cell_def norm3_def split: prod.splits)

lemma inner_loop_eq:
  "foldl (\<lambda>moves j. if P j then moves @ [(i, j)] else moves) acc js
     = acc @ map (Pair i) (filter P js)"
  by (induction js arbitrary: acc) auto

lemma outer_loop_eq:
  "foldl (\<lambda>moves i. moves @ map (Pair i) (filter (P i) js)) acc is
     = acc @ concat (map (\<lambda>i. map (Pair i) (filter (P i) js)) is)"
  by (induction "is" arbitrary: acc) auto

lemma filter_product:
  "filter (\<lambda>(i, j). P i j) (List.product xs ys)
     = concat (map (\<lambda>i. map (Pair i) (filter (P i) ys)) xs)"
  by (induction xs) (auto simp: filter_map comp_def)

lemma all_cells_product: "all_cells = List.product indices indices"
  by (simp add: all_cells_def indices_def)

lemma getAvailableMoves_filter:
  "getAvailableMoves b = filter (\<lambda>(i, j). cell b i j = emptyCell) all_cells"
  unfolding getAvailableMoves_def inner_loop_eq outer_loop_eq all_cells_product filter_product
  by simp

lemma distinct_all_cells: "distinct all_cells"
  by (simp add: all_cells_def)

lemma set_all_cells: "set all_cells = {0, 1, 2} \<times> {0, 1, 2}"
  by (auto simp: all_cells_def)

lemma distinct_getAvailableMoves: "distinct (getAvailableMoves b)"
  by (simp add: getAvailableMoves_filter distinct_all_cells)

lemma set_getAvailableMoves:
  "set (getAvailableMoves b) = {(i, j). i \<in> {0, 1, 2} \<and> j \<in> {0, 1, 2} \<and> cell b i j = emptyCell}"
  by (auto simp: getAvailableMoves_filter set_all_cells)

lemma getAvailableMoves_in_range:
  "(r, c) \<in> set (getAvailableMoves b) \<Longrightarrow> r \<in> {0, 1, 2} \<and> c \<in> {0, 1, 2}"
  by (simp add: set_getAvailableMoves)

lemma nth3_upd3: "nth3 (upd3 t i v) j = (if norm3 j = norm3 i then v else nth3 t j)"
  by (cases t rule: prod_cases3) (simp add: norm3_def)

lemma upd3_norm3: "upd3 t (norm3 i) v = upd3 t i v"
  by (cases t rule: prod_cases3) (simp add: norm3_def)

lemma nth3_norm3: "nth3 t (norm3 i) = nth3 t i"
  by (cases t rule: prod_cases3) (simp add: norm3_def)

lemma cell_place:
  "cell (place b r c v) r' c'
     = (if norm3 r' = norm3 r \<and> norm3 c' = norm3 c then v else cell b r' c')"
  by (simp add: cell_def place_def nth3_upd3) (metis nth3_norm3)

lemma triple_eqI:
  "nth3 s 0 = nth3 t 0 \<Longrightarrow> nth3 s 1 = nth3 t 1 \<Longrightarrow> nth3 s 2 = nth3 t 2 \<Longrightarrow> s = t"
  by (cases s rule: prod_cases3; cases t rule: prod_cases3) simp

lemma board_eqI:
  assumes "\<And>i j. i \<in> {0, 1, 2} \<Longrightarrow> j \<in> {0, 1, 2} \<Longrightarrow> cell b i j = cell b' i j"
  shows "b = b'"
proof (rule triple_eqI)
  show "nth3 b 0 = nth3 b' 0" using assms by (intro triple_eqI) (simp_all add: cell_def)
  show "nth3 b 1 = nth3 b' 1" using assms by (intro triple_eqI) (simp_all add: cell_def)
  show "nth3 b 2 = nth3 b' 2" using assms by (intro triple_eqI) (simp_all add: cell_def)
qed

lemma norm3_id: "i \<in> {0, 1, 2} \<Longrightarrow> norm3 i = i"
  by (auto simp: norm3_def)

lemma place_retract:
  assumes "cell b r c = emptyCell"
  shows "place (place b r c v) r c emptyCell = b"
proof (rule board_eqI)
  fix i j :: int
  assume "i \<in> {0, 1, 2}" "j \<in> {0, 1, 2}"
  show "cell (place (place b r c v) r c emptyCell) i j = cell b i j"
    using assms by (simp add: cell_place) (metis cell_norm3)
qed

lemma initializeBoard_empty:
  "initializeBoard
     = ((emptyCell, emptyCell, emptyCell), (emptyCell, emptyCell, emptyCell),
        (emptyCell, emptyCell, emptyCell))"
  by (simp add: initializeBoard_def indices_def zeroBoard_def place_def)

definition norm_move :: "move \<Rightarrow> move" where
  "norm_move m = (norm3 (fst m), norm3 (snd m))"

lemma norm_move_in_cells: "norm_move m \<in> set all_cells"
proof -
  have "(norm3 (fst m), norm3 (snd m)) \<in> {0, 1, 2} \<times> {0, 1, 2}"
    using norm3_range [of "fst m"] norm3_range [of "snd m"] by blast
  then show ?thesis
    by (simp only: set_all_cells norm_move_def)
qed

lemma norm_move_cells: "m \<in> set all_cells \<Longrightarrow> norm_move m = m"
  by (cases m) (auto simp: all_cells_def norm_move_def norm3_def)

lemma set_getAvailableMoves_cells:
  "set (getAvailableMoves b) = {m \<in> set all_cells. cell b (fst m) (snd m) = emptyCell}"
  by (auto simp: getAvailableMoves_filter)

lemma cell_place_cells:
  assumes "m \<in> set all_cells"
  shows "cell (place b r c v) (fst m) (snd m)
           = (if m = norm_move (r, c) then v else cell b (fst m) (snd m))"
proof -
  have "norm3 (fst m) = fst m" "norm3 (snd m) = snd m"
    using norm_move_cells [OF assms] by (simp_all add: norm_move_def prod_eq_iff)
  then show ?thesis
    by (simp add: cell_place norm_move_def prod_eq_iff)
qed

lemma set_getAvailableMoves_place:
  "set (getAvailableMoves (place b r c v))
     = (if v = emptyCell then insert (norm_move (r, c)) (set (getAvailableMoves b))
        else set (getAvailableMoves b) - {norm_move (r, c)})"
proof -
  have "set (getAvailableMoves (place b r c v))
          = {m \<in> set all_cells.
               (if m = norm_move (r, c) then v else cell b (fst m) (snd m)) = emptyCell}"
    unfolding set_getAvailableMoves_cells
    by (rule Collect_cong) (simp add: cell_place_cells cong: conj_cong)
  also have "\<dots> = (if v = emptyCell then insert (norm_move (r, c)) (set (getAvailableMoves b))
        else set (getAvailableMoves b) - {norm_move (r, c)})"
    unfolding set_getAvailableMoves_cells using norm_move_in_cells [of "(r, c)"] by auto
  finally show ?thesis .
qed

subsection \<open>A termination measure for the search\<close>

text \<open>
  The number of cells that are empty on the board or still to be tried by a loop. A
  recursive call of the search is made on a board with one of these cells marked.
\<close>

definition pending :: "board \<Rightarrow> move list \<Rightarrow> nat" where
  "pending b ms = card (set (getAvailableMoves b) \<union> norm_move ` set ms)"

lemma pending_avail: "pending b (getAvailableMoves b) = length (getAvailableMoves b)"
proof -
  have "\<And>m. m \<in> set (getAvailableMoves b) \<Longrightarrow> norm_move m = m"
    by (simp add: set_getAvailableMoves_cells norm_move_cells)
  then have "norm_move ` set (getAvailableMoves b) = set (getAvailableMoves b)"
    by force
  then show ?thesis
    by (simp add: pending_def distinct_card distinct_getAvailableMoves)
qed

lemma pending_Nil: "pending b [] = length (getAvailableMoves b)"
  by (simp add: pending_def distinct_card distinct_getAvailableMoves)

lemma pending_mark:
  assumes "v \<noteq> emptyCell"
  shows "pending (place b (fst m) (snd m) v) [] < pending b (m # ms)"
proof -
  let ?A = "set (getAvailableMoves b)"
  have "card (?A - {norm_move m}) < card (insert (norm_move m) (?A \<union> norm_move ` set ms))"
    by (intro psubset_card_mono) auto
  then show ?thesis
    using assms by (simp add: pending_def set_getAvailableMoves_place)
qed

lemma pending_retract:
  "pending (place (place b (fst m) (snd m) v) (fst m) (snd m) emptyCell) ms = pending b (m # ms)"
proof -
  have "set (getAvailableMoves (place (place b (fst m) (snd m) v) (fst m) (snd m) emptyCell))
          = insert (norm_move m) (set (getAvailableMoves b))"
    by (auto simp: set_getAvailableMoves_place)
  then show ?thesis
    by (simp add: pending_def)
qed

section \<open>The minimax search\<close>

text \<open>
  \<^verbatim>\<open>minimax\<close> receives its own copy of the board (Go passes arrays by value) and
  updates that copy in place inside its two loops. The model threads the copy through
  the loops: \<open>max_loop\<close> and \<open>min_loop\<close> are the two \<^verbatim>\<open>for ... range availableMoves\<close>
  loops, with the local board and \<^verbatim>\<open>bestScore\<close> as their state, and \<open>minimax_st\<close>
  returns the score together with the final contents of the local board. A recursive
  call is handed the current contents and the caller keeps its own array, so the
  board returned by the callee is dropped.
\<close>

function minimax_st :: "board \<Rightarrow> int \<Rightarrow> bool \<Rightarrow> int \<times> board"
  and max_loop :: "board \<Rightarrow> int \<Rightarrow> move list \<Rightarrow> int \<Rightarrow> int \<times> board"
  and min_loop :: "board \<Rightarrow> int \<Rightarrow> move list \<Rightarrow> int \<Rightarrow> int \<times> board"
where
  "minimax_st b depth isMaximizing =
     (let score = evaluateBoard b in
      if score = 10 \<or> score = - 10 \<or> isBoardFull b then (score, b)
      else
        let availableMoves = getAvailableMoves b in
        if isMaximizing then max_loop b depth availableMoves MinInt32
        else min_loop b depth availableMoves MaxInt32)"
| "max_loop b depth [] bestScore = (bestScore, b)"
| "max_loop b depth (move # moves) bestScore =
     (let r = fst move; c = snd move;
          b1 = place b r c playerO;
          currentScore = fst (minimax_st b1 (depth + 1) False);
          b2 = place b1 r c emptyCell
      in max_loop b2 depth moves (if currentScore > bestScore then currentScore else bestScore))"
| "min_loop b depth [] bestScore = (bestScore, b)"
| "min_loop b depth (move # moves) bestScore =
     (let r = fst move; c = snd move;
          b1 = place b r c playerX;
          currentScore = fst (minimax_st b1 (depth + 1) True);
          b2 = place b1 r c emptyCell
      in min_loop b2 depth moves (if currentScore < bestScore then currentScore else bestScore))"
  by pat_completeness auto

termination
proof (relation "measures
   [\<lambda>x. case x of Inl (b, d, m) \<Rightarrow> pending b []
          | Inr (Inl (b, d, ms, s)) \<Rightarrow> pending b ms
          | Inr (Inr (b, d, ms, s)) \<Rightarrow> pending b ms,
    \<lambda>x. case x of Inl _ \<Rightarrow> 1 | Inr _ \<Rightarrow> 0,
    \<lambda>x. case x of Inl _ \<Rightarrow> 0
          | Inr (Inl (b, d, ms, s)) \<Rightarrow> length ms
          | Inr (Inr (b, d, ms, s)) \<Rightarrow> length ms]", goal_cases)
  case 1
  show ?case by simp
next
  case 2
  then show ?case by (simp add: pending_avail pending_Nil)
next
  case 3
  then show ?case by (simp add: pending_avail pending_Nil)
next
  case 4
  then show ?case by (simp add: pending_mark playerO_def emptyCell_def)
next
  case 5
  then show ?case by (simp add: pending_retract)
next
  case 6
  then show ?case by (simp add: pending_mark playerX_def emptyCell_def)
next
  case 7
  then show ?case by (simp add: pending_retract)
qed

text \<open>The Go function returns the score only.\<close>

definition minimax :: "board \<Rightarrow> int \<Rightarrow> bool \<Rightarrow> int" where
  "minimax b depth isMaximizing = fst (minimax_st b depth isMaximizing)"

text \<open>The base-case test of \<^verbatim>\<open>minimax\<close> (a win for either side or a full board).\<close>

definition terminal :: "board \<Rightarrow> bool" where
  "terminal b = (evaluateBoard b = 10 \<or> evaluateBoard b = - 10 \<or> isBoardFull b)"

section \<open>Properties of the search\<close>

declare minimax_st.simps [simp del]

subsection \<open>The loops as folds over the available moves\<close>

lemma avail_cell_empty:
  "m \<in> set (getAvailableMoves b) \<Longrightarrow> cell b (fst m) (snd m) = emptyCell"
  by (simp add: set_getAvailableMoves_cells)

lemma max_loop_eq:
  assumes "set ms \<subseteq> set (getAvailableMoves b)"
  shows "max_loop b d ms best
           = (foldl (\<lambda>s m. max s (minimax (place b (fst m) (snd m) playerO) (d + 1) False)) best ms, b)"
  using assms
proof (induction ms arbitrary: best)
  case Nil
  show ?case by simp
next
  case (Cons m ms)
  have "place (place b (fst m) (snd m) playerO) (fst m) (snd m) emptyCell = b"
    using Cons.prems by (simp add: place_retract avail_cell_empty)
  moreover have "set ms \<subseteq> set (getAvailableMoves b)"
    using Cons.prems by simp
  ultimately show ?case
    by (simp add: Cons.IH Let_def minimax_def max_def)
qed

lemma min_loop_eq:
  assumes "set ms \<subseteq> set (getAvailableMoves b)"
  shows "min_loop b d ms best
           = (foldl (\<lambda>s m. min s (minimax (place b (fst m) (snd m) playerX) (d + 1) True)) best ms, b)"
  using assms
proof (induction ms arbitrary: best)
  case Nil
  show ?case by simp
next
  case (Cons m ms)
  have "place (place b (fst m) (snd m) playerX) (fst m) (snd m) emptyCell = b"
    using Cons.prems by (simp add: place_retract avail_cell_empty)
  moreover have "set ms \<subseteq> set (getAvailableMoves b)"
    using Cons.prems by simp
  ultimately show ?case
    by (simp add: Cons.IH Let_def minimax_def min_def)
qed

lemma Max_insert_max:
  "finite S \<Longrightarrow> Max (insert (max a b) S) = Max (insert a (insert b S))"
  by (cases "S = {}") (simp_all add: max.assoc)

lemma Min_insert_min:
  "finite S \<Longrightarrow> Min (insert (min a b) S) = Min (insert a (insert b S))"
  by (cases "S = {}") (simp_all add: min.assoc)

lemma foldl_max_Max:
  "foldl (\<lambda>s m. max s (f m)) (best :: int) ms = Max (insert best (f ` set ms))"
  by (induction ms arbitrary: best) (simp_all add: Max_insert_max)

lemma foldl_min_Min:
  "foldl (\<lambda>s m. min s (f m)) (best :: int) ms = Min (insert best (f ` set ms))"
  by (induction ms arbitrary: best) (simp_all add: Min_insert_min)

lemma minimax_st_terminal:
  "terminal b \<Longrightarrow> minimax_st b d m = (evaluateBoard b, b)"
  by (auto simp: minimax_st.simps terminal_def Let_def)

lemma minimax_st_max:
  "\<not> terminal b \<Longrightarrow> minimax_st b d True
     = (Max (insert MinInt32
          ((\<lambda>m. minimax (place b (fst m) (snd m) playerO) (d + 1) False) ` set (getAvailableMoves b))), b)"
  by (simp add: minimax_st.simps [of b d True] terminal_def Let_def max_loop_eq foldl_max_Max)

lemma minimax_st_min:
  "\<not> terminal b \<Longrightarrow> minimax_st b d False
     = (Min (insert MaxInt32
          ((\<lambda>m. minimax (place b (fst m) (snd m) playerX) (d + 1) True) ` set (getAvailableMoves b))), b)"
  by (simp add: minimax_st.simps [of b d False] terminal_def Let_def min_loop_eq foldl_min_Min)

lemma length_avail_place:
  assumes "m \<in> set (getAvailableMoves b)" and "v \<noteq> emptyCell"
  shows "length (getAvailableMoves (place b (fst m) (snd m) v)) < length (getAvailableMoves b)"
proof -
  have "norm_move m = m"
    using assms(1) by (simp add: set_getAvailableMoves_cells norm_move_cells)
  then have "pending b [m] = length (getAvailableMoves b)"
    using assms(1) by (simp add: pending_def insert_absorb distinct_card distinct_getAvailableMoves)
  then show ?thesis
    using pending_mark [OF assms(2), of b m "[]"] by (simp add: pending_Nil)
qed

lemma playerO_not_empty: "playerO \<noteq> emptyCell"
  by (simp add: playerO_def emptyCell_def)

lemma playerX_not_empty: "playerX \<noteq> emptyCell"
  by (simp add: playerX_def emptyCell_def)

lemma evaluateBoard_range: "evaluateBoard b \<in> {- 10, 0, 10}"
  by (simp add: evaluateBoard_def)

lemma not_terminal_avail: "\<not> terminal b \<Longrightarrow> getAvailableMoves b \<noteq> []"
  by (simp add: terminal_def isBoardFull_def)

lemma minimax_range: "minimax b d isMax \<in> {- 10, 0, 10}"
proof (induction "length (getAvailableMoves b)" arbitrary: b d isMax rule: less_induct)
  case less
  show ?case
  proof (cases "terminal b")
    case True
    then show ?thesis
      using evaluateBoard_range [of b] by (simp add: minimax_def minimax_st_terminal)
  next
    case False
    let ?A = "set (getAvailableMoves b)"
    have ne: "?A \<noteq> {}" using not_terminal_avail [OF False] by simp
    show ?thesis
    proof (cases isMax)
      case True
      let ?f = "\<lambda>m. minimax (place b (fst m) (snd m) playerO) (d + 1) False"
      have "?f m \<in> {- 10, 0, 10}" if "m \<in> ?A" for m
        by (rule less) (rule length_avail_place [OF that playerO_not_empty])
      then have sub: "?f ` ?A \<subseteq> {- 10, 0, 10}"
        by blast
      have "Max (insert MinInt32 (?f ` ?A)) = max MinInt32 (Max (?f ` ?A))"
        using ne by simp
      moreover have "Max (?f ` ?A) \<in> ?f ` ?A"
        using ne by (intro Max_in) simp_all
      ultimately have "Max (insert MinInt32 (?f ` ?A)) \<in> {- 10, 0, 10}"
        using sub by (auto simp: MinInt32_def max_def)
      then show ?thesis
        using True False by (simp add: minimax_def minimax_st_max)
    next
      case isMin: False
      let ?f = "\<lambda>m. minimax (place b (fst m) (snd m) playerX) (d + 1) True"
      have "?f m \<in> {- 10, 0, 10}" if "m \<in> ?A" for m
        by (rule less) (rule length_avail_place [OF that playerX_not_empty])
      then have sub: "?f ` ?A \<subseteq> {- 10, 0, 10}"
        by blast
      have "Min (insert MaxInt32 (?f ` ?A)) = min MaxInt32 (Min (?f ` ?A))"
        using ne by simp
      moreover have "Min (?f ` ?A) \<in> ?f ` ?A"
        using ne by (intro Min_in) simp_all
      ultimately have "Min (insert MaxInt32 (?f ` ?A)) \<in> {- 10, 0, 10}"
        using sub by (auto simp: MaxInt32_def min_def)
      then show ?thesis
        using isMin False by (simp add: minimax_def minimax_st_min)
    qed
  qed
qed

lemma minimax_bounds: "MinInt32 < minimax b d isMax" "minimax b d isMax < MaxInt32"
  using minimax_range [of b d isMax] by (auto simp: MinInt32_def MaxInt32_def)

subsection \<open>The value of a position that is not terminal\<close>

lemma minimax_max_eq:
  assumes "\<not> terminal b"
  shows "minimax b d True
           = Max ((\<lambda>m. minimax (place b (fst m) (snd m) playerO) (d + 1) False)
                    ` set (getAvailableMoves b))"
proof -
  let ?S = "(\<lambda>m. minimax (place b (fst m) (snd m) playerO) (d + 1) False) ` set (getAvailableMoves b)"
  have ne: "?S \<noteq> {}" and fin: "finite ?S"
    using not_terminal_avail [OF assms] by simp_all
  have "Max ?S \<in> ?S"
    using fin ne by (rule Max_in)
  then obtain m where "Max ?S = minimax (place b (fst m) (snd m) playerO) (d + 1) False"
    by blast
  then have "MinInt32 \<le> Max ?S"
    using minimax_bounds(1) [of "place b (fst m) (snd m) playerO" "d + 1" False] by simp
  then have "max MinInt32 (Max ?S) = Max ?S"
    by (rule max_absorb2)
  moreover have "Max (insert MinInt32 ?S) = max MinInt32 (Max ?S)"
    using fin ne by (rule Max_insert)
  ultimately show ?thesis
    using assms by (simp add: minimax_def minimax_st_max)
qed

lemma minimax_min_eq:
  assumes "\<not> terminal b"
  shows "minimax b d False
           = Min ((\<lambda>m. minimax (place b (fst m) (snd m) playerX) (d + 1) True)
                    ` set (getAvailableMoves b))"
proof -
  let ?S = "(\<lambda>m. minimax (place b (fst m) (snd m) playerX) (d + 1) True) ` set (getAvailableMoves b)"
  have ne: "?S \<noteq> {}" and fin: "finite ?S"
    using not_terminal_avail [OF assms] by simp_all
  have "Min ?S \<in> ?S"
    using fin ne by (rule Min_in)
  then obtain m where "Min ?S = minimax (place b (fst m) (snd m) playerX) (d + 1) True"
    by blast
  then have "Min ?S \<le> MaxInt32"
    using minimax_bounds(2) [of "place b (fst m) (snd m) playerX" "d + 1" True] by simp
  then have "min MaxInt32 (Min ?S) = Min ?S"
    by (rule min_absorb2)
  moreover have "Min (insert MaxInt32 ?S) = min MaxInt32 (Min ?S)"
    using fin ne by (rule Min_insert)
  ultimately show ?thesis
    using assms by (simp add: minimax_def minimax_st_min)
qed

text \<open>
  The depth argument is only passed on, incremented: the result does not depend on
  it (so neither does it depend on how the counter would wrap around).
\<close>

lemma minimax_depth_irrelevant: "minimax b d isMax = minimax b d' isMax"
proof (induction "length (getAvailableMoves b)" arbitrary: b d d' isMax rule: less_induct)
  case less
  show ?case
  proof (cases "terminal b")
    case True
    then show ?thesis
      by (simp add: minimax_def minimax_st_terminal)
  next
    case False
    show ?thesis
    proof (cases isMax)
      case True
      have "minimax (place b (fst m) (snd m) playerO) (d + 1) False
              = minimax (place b (fst m) (snd m) playerO) (d' + 1) False"
        if "m \<in> set (getAvailableMoves b)" for m
        by (rule less) (rule length_avail_place [OF that playerO_not_empty])
      then have "(\<lambda>m. minimax (place b (fst m) (snd m) playerO) (d + 1) False) ` set (getAvailableMoves b)
          = (\<lambda>m. minimax (place b (fst m) (snd m) playerO) (d' + 1) False) ` set (getAvailableMoves b)"
        by (intro image_cong) simp_all
      then show ?thesis
        using True False by (simp add: minimax_max_eq)
    next
      case isMin: False
      have "minimax (place b (fst m) (snd m) playerX) (d + 1) True
              = minimax (place b (fst m) (snd m) playerX) (d' + 1) True"
        if "m \<in> set (getAvailableMoves b)" for m
        by (rule less) (rule length_avail_place [OF that playerX_not_empty])
      then have "(\<lambda>m. minimax (place b (fst m) (snd m) playerX) (d + 1) True) ` set (getAvailableMoves b)
          = (\<lambda>m. minimax (place b (fst m) (snd m) playerX) (d' + 1) True) ` set (getAvailableMoves b)"
        by (intro image_cong) simp_all
      then show ?thesis
        using isMin False by (simp add: minimax_min_eq)
    qed
  qed
qed

subsection \<open>Claims about minimax\<close>

text \<open>
  Claim C2. On a board that is not terminal (the evaluation is neither \<open>10\<close> nor \<open>-10\<close>
  and the board is not full), \<open>minimax\<close> with \<open>isMaximizing = True\<close> returns the maximum,
  over the available moves, of \<open>minimax\<close> on the board with the computer's mark \<open>O\<close>
  placed there and \<open>isMaximizing = False\<close>; with \<open>isMaximizing = False\<close> it returns the
  minimum, over the available moves, of \<open>minimax\<close> on the board with the human's mark
  \<open>X\<close> placed there and \<open>isMaximizing = True\<close>.
\<close>

theorem minimax_children:
  assumes "evaluateBoard b \<noteq> 10" and "evaluateBoard b \<noteq> - 10" and "\<not> isBoardFull b"
  shows "minimax b depth True
           = Max ((\<lambda>(r, c). minimax (place b r c playerO) (depth + 1) False)
                    ` set (getAvailableMoves b))
         \<and> minimax b depth False
           = Min ((\<lambda>(r, c). minimax (place b r c playerX) (depth + 1) True)
                    ` set (getAvailableMoves b))"
proof -
  have nt: "\<not> terminal b"
    using assms by (simp add: terminal_def)
  show ?thesis
    using minimax_max_eq [OF nt, of depth] minimax_min_eq [OF nt, of depth]
    by (simp add: case_prod_beta)
qed

theorem minimax_children_witness:
  "evaluateBoard ((''X'', ''O'', ''X''), (''O'', ''X'', ''O''), ('' '', '' '', '' '')) \<noteq> 10
   \<and> evaluateBoard ((''X'', ''O'', ''X''), (''O'', ''X'', ''O''), ('' '', '' '', '' '')) \<noteq> - 10
   \<and> \<not> isBoardFull ((''X'', ''O'', ''X''), (''O'', ''X'', ''O''), ('' '', '' '', '' ''))
   \<and> minimax ((''X'', ''O'', ''X''), (''O'', ''X'', ''O''), ('' '', '' '', '' '')) 0 True = - 10
   \<and> minimax ((''X'', ''O'', ''X''), (''O'', ''X'', ''O''), ('' '', '' '', '' '')) 0 False = - 10"
proof -
  let ?b = "((''X'', ''O'', ''X''), (''O'', ''X'', ''O''), ('' '', '' '', '' '')) :: board"
  have h1: "evaluateBoard ?b \<noteq> 10" by code_simp
  have h2: "evaluateBoard ?b \<noteq> - 10" by code_simp
  have h3: "\<not> isBoardFull ?b" by code_simp
  have mx: "Max ((\<lambda>(r, c). minimax (place ?b r c playerO) (0 + 1) False)
                    ` set (getAvailableMoves ?b)) = - 10"
    by code_simp
  have mn: "Min ((\<lambda>(r, c). minimax (place ?b r c playerX) (0 + 1) True)
                    ` set (getAvailableMoves ?b)) = - 10"
    by code_simp
  show ?thesis
    using minimax_children [OF h1 h2 h3, of 0] h1 h2 h3 mx mn by simp
qed

text \<open>
  Claim C3. Where \<open>evaluateBoard\<close> is \<open>10\<close> or \<open>-10\<close>, or the board is full, \<open>minimax\<close>
  returns \<open>evaluateBoard b\<close>, whatever \<open>isMaximizing\<close> and whatever the depth: the depth
  counter never discounts the score.
\<close>

theorem minimax_terminal_value:
  assumes "evaluateBoard b = 10 \<or> evaluateBoard b = - 10 \<or> isBoardFull b"
  shows "minimax b depth isMaximizing = evaluateBoard b"
  using assms by (simp add: minimax_def minimax_st_terminal terminal_def)

theorem minimax_terminal_value_witness:
  "evaluateBoard ((''O'', ''O'', ''O''), (''X'', ''X'', '' ''), ('' '', ''X'', '' '')) = 10
   \<and> minimax ((''O'', ''O'', ''O''), (''X'', ''X'', '' ''), ('' '', ''X'', '' '')) 0 False = 10
   \<and> minimax ((''O'', ''O'', ''O''), (''X'', ''X'', '' ''), ('' '', ''X'', '' '')) 7 True = 10"
proof -
  let ?b = "((''O'', ''O'', ''O''), (''X'', ''X'', '' ''), ('' '', ''X'', '' '')) :: board"
  have h: "evaluateBoard ?b = 10" by code_simp
  then have t: "evaluateBoard ?b = 10 \<or> evaluateBoard ?b = - 10 \<or> isBoardFull ?b"
    by simp
  show ?thesis
    using minimax_terminal_value [OF t, of 0 False] minimax_terminal_value [OF t, of 7 True] h
    by simp
qed

text \<open>
  Claim C6. A call of \<open>minimax\<close> leaves the board as it was. The caller's array is
  untouched because the callee works on a copy; and the copy itself is restored:
  when the call returns, the local board equals the board it was given, and each of
  the two loops, run over the available moves, ends with the board it started with
  (every mark placed is retracted to the empty cell).
\<close>

theorem minimax_restores_board:
  "snd (minimax_st b depth isMaximizing) = b
   \<and> snd (max_loop b depth (getAvailableMoves b) bestScore) = b
   \<and> snd (min_loop b depth (getAvailableMoves b) bestScore) = b"
proof -
  have "snd (minimax_st b depth isMaximizing) = b"
    by (cases "terminal b"; cases isMaximizing)
       (simp_all add: minimax_st_terminal minimax_st_max minimax_st_min)
  then show ?thesis
    by (simp add: max_loop_eq min_loop_eq)
qed

text \<open>
  Claim C10. \<open>minimax\<close> returns a value in \<open>{-10, 0, 10}\<close>; the initial values
  \<open>MinInt32\<close> and \<open>MaxInt32\<close> of \<^verbatim>\<open>bestScore\<close> are never returned. This holds for every
  board of the array type, in particular for every board whose cells are each
  \<open>X\<close>, \<open>O\<close> or empty.
\<close>

theorem minimax_score_range:
  "minimax b depth isMaximizing \<in> {- 10, 0, 10}
   \<and> minimax b depth isMaximizing \<noteq> MinInt32
   \<and> minimax b depth isMaximizing \<noteq> MaxInt32"
  using minimax_range [of b depth isMaximizing]
    minimax_bounds [of b depth isMaximizing]
  by simp

section \<open>Move selection\<close>

text \<open>
  \<open>best_loop\<close> is the \<^verbatim>\<open>for ... range availableMoves\<close> loop of \<^verbatim>\<open>findBestMove\<close>; its state
  is the local board, \<^verbatim>\<open>bestScore\<close> and \<^verbatim>\<open>bestMove\<close>.
\<close>

fun best_loop :: "board \<Rightarrow> move list \<Rightarrow> int \<Rightarrow> move \<Rightarrow> int \<times> move \<times> board" where
  "best_loop b [] bestScore bestMove = (bestScore, bestMove, b)"
| "best_loop b (move # moves) bestScore bestMove =
     (let r = fst move; c = snd move;
          b1 = place b r c playerO;
          moveScore = minimax b1 0 False;
          b2 = place b1 r c emptyCell
      in if moveScore > bestScore then best_loop b2 moves moveScore move
         else best_loop b2 moves bestScore bestMove)"

text \<open>
  \<^verbatim>\<open>findBestMove\<close> draws from the global random source and prints an error line in its
  fallback. The draw is a parameter: \<^verbatim>\<open>rand.Intn(n)\<close> returns some value in \<open>[0, n)\<close>,
  modelled as \<open>rnd mod n\<close> for an arbitrary natural number \<open>rnd\<close>. The lines written
  with \<^verbatim>\<open>fmt.Println\<close> are returned next to the move, so that taking the fallback branch
  is visible in the result.
\<close>

definition no_best_move_msg :: string where
  "no_best_move_msg = ''Error: No best move found, picking random available move.''"

definition findBestMove :: "nat \<Rightarrow> board \<Rightarrow> move \<times> string list" where
  "findBestMove rnd b =
     (let bestScore = MinInt32;
          bestMove = (- 1, - 1);
          availableMoves = getAvailableMoves b
      in if length availableMoves = 9
         then (availableMoves ! (rnd mod length availableMoves), [])
         else
           let (bestScore, bestMove, b) = best_loop b availableMoves bestScore bestMove
           in if fst bestMove = - 1
              then (if length availableMoves > 0
                    then (availableMoves ! (rnd mod length availableMoves), [no_best_move_msg])
                    else ((- 1, - 1), [no_best_move_msg]))
              else (bestMove, []))"

text \<open>The score the loop computes for one candidate move (the value of \<^verbatim>\<open>moveScore\<close>).\<close>

definition moveScore :: "board \<Rightarrow> move \<Rightarrow> int" where
  "moveScore b move = minimax (place b (fst move) (snd move) playerO) 0 False"

text \<open>The selection the loop performs on the scores: keep the first strictly greater one.\<close>

fun select :: "(move \<Rightarrow> int) \<Rightarrow> move list \<Rightarrow> int \<Rightarrow> move \<Rightarrow> int \<times> move" where
  "select f [] s mv = (s, mv)"
| "select f (m # ms) s mv = (if f m > s then select f ms (f m) m else select f ms s mv)"

lemma best_loop_select:
  assumes "set ms \<subseteq> set (getAvailableMoves b)"
  shows "best_loop b ms s mv = (fst (select (moveScore b) ms s mv), snd (select (moveScore b) ms s mv), b)"
  using assms
proof (induction ms arbitrary: s mv)
  case Nil
  show ?case by simp
next
  case (Cons m ms)
  have "place (place b (fst m) (snd m) playerO) (fst m) (snd m) emptyCell = b"
    using Cons.prems by (simp add: place_retract avail_cell_empty)
  moreover have "set ms \<subseteq> set (getAvailableMoves b)"
    using Cons.prems by simp
  ultimately show ?case
    by (simp add: Cons.IH Let_def moveScore_def)
qed

lemma select_spec:
  "(select f ms s mv = (s, mv) \<and> (\<forall>m\<in>set ms. f m \<le> s))
   \<or> (\<exists>i<length ms. select f ms s mv = (f (ms ! i), ms ! i) \<and> s < f (ms ! i)
         \<and> (\<forall>j<length ms. f (ms ! j) \<le> f (ms ! i))
         \<and> (\<forall>j<i. f (ms ! j) < f (ms ! i)))"
proof (induction ms arbitrary: s mv)
  case Nil
  show ?case by simp
next
  case (Cons m ms)
  show ?case
  proof (cases "f m > s")
    case True
    from Cons.IH [of "f m" m] show ?thesis
    proof (elim disjE conjE exE)
      assume a: "select f ms (f m) m = (f m, m)" "\<forall>x\<in>set ms. f x \<le> f m"
      have "\<forall>j<length (m # ms). f ((m # ms) ! j) \<le> f m"
        using a(2) by (auto simp: nth_Cons split: nat.splits)
      then have "0 < length (m # ms) \<and> select f (m # ms) s mv = (f ((m # ms) ! 0), (m # ms) ! 0)
          \<and> s < f ((m # ms) ! 0) \<and> (\<forall>j<length (m # ms). f ((m # ms) ! j) \<le> f ((m # ms) ! 0))
          \<and> (\<forall>j<0. f ((m # ms) ! j) < f ((m # ms) ! 0))"
        using True a(1) by simp
      then show ?thesis by blast
    next
      fix i
      assume a: "i < length ms" "select f ms (f m) m = (f (ms ! i), ms ! i)" "f m < f (ms ! i)"
        "\<forall>j<length ms. f (ms ! j) \<le> f (ms ! i)" "\<forall>j<i. f (ms ! j) < f (ms ! i)"
      have "Suc i < length (m # ms) \<and> select f (m # ms) s mv = (f ((m # ms) ! Suc i), (m # ms) ! Suc i)
          \<and> s < f ((m # ms) ! Suc i)
          \<and> (\<forall>j<length (m # ms). f ((m # ms) ! j) \<le> f ((m # ms) ! Suc i))
          \<and> (\<forall>j<Suc i. f ((m # ms) ! j) < f ((m # ms) ! Suc i))"
        using True a by (auto simp: nth_Cons split: nat.splits)
      then show ?thesis by blast
    qed
  next
    case False
    from Cons.IH [of s mv] show ?thesis
    proof (elim disjE conjE exE)
      assume a: "select f ms s mv = (s, mv)" "\<forall>x\<in>set ms. f x \<le> s"
      then show ?thesis using False by simp
    next
      fix i
      assume a: "i < length ms" "select f ms s mv = (f (ms ! i), ms ! i)" "s < f (ms ! i)"
        "\<forall>j<length ms. f (ms ! j) \<le> f (ms ! i)" "\<forall>j<i. f (ms ! j) < f (ms ! i)"
      have "Suc i < length (m # ms) \<and> select f (m # ms) s mv = (f ((m # ms) ! Suc i), (m # ms) ! Suc i)
          \<and> s < f ((m # ms) ! Suc i)
          \<and> (\<forall>j<length (m # ms). f ((m # ms) ! j) \<le> f ((m # ms) ! Suc i))
          \<and> (\<forall>j<Suc i. f ((m # ms) ! j) < f ((m # ms) ! Suc i))"
        using False a by (auto simp: nth_Cons split: nat.splits)
      then show ?thesis by blast
    qed
  qed
qed

subsection \<open>Example boards\<close>

text \<open>
  The boards of the scenarios: \<open>[X,O,X / O,X,O / _,_,_]\<close>, a board on which both marks
  have a completed row, a full board without a winner, and \<open>[X,_,_ / X,_,_ / _,O,_]\<close>.
\<close>

definition scenarioBoard :: board where
  "scenarioBoard = ((playerX, playerO, playerX), (playerO, playerX, playerO), (emptyCell, emptyCell, emptyCell))"

definition bothLinesBoard :: board where
  "bothLinesBoard = ((playerO, playerO, playerO), (playerX, playerX, playerX), (emptyCell, emptyCell, emptyCell))"

definition fullDrawBoard :: board where
  "fullDrawBoard = ((playerX, playerO, playerX), (playerX, playerO, playerO), (playerO, playerX, playerX))"

definition blockBoard :: board where
  "blockBoard = ((playerX, emptyCell, emptyCell), (playerX, emptyCell, emptyCell), (emptyCell, playerO, emptyCell))"

lemma length_all_cells: "length all_cells = 9"
  by (simp add: all_cells_def)

lemma length_avail_le: "length (getAvailableMoves b) \<le> 9"
  using length_filter_le [of "\<lambda>(i, j). cell b i j = emptyCell" all_cells]
  by (simp add: getAvailableMoves_filter length_all_cells)

lemma avail_fst_range: "m \<in> set (getAvailableMoves b) \<Longrightarrow> fst m \<in> {0, 1, 2}"
  by (auto simp: set_getAvailableMoves)

lemma findBestMove_selected:
  assumes "getAvailableMoves b \<noteq> []" and "length (getAvailableMoves b) \<noteq> 9"
  shows "\<exists>i<length (getAvailableMoves b).
           findBestMove rnd b = (getAvailableMoves b ! i, [])
           \<and> select (moveScore b) (getAvailableMoves b) MinInt32 (- 1, - 1)
               = (moveScore b (getAvailableMoves b ! i), getAvailableMoves b ! i)
           \<and> (\<forall>j<length (getAvailableMoves b).
                 moveScore b (getAvailableMoves b ! j) \<le> moveScore b (getAvailableMoves b ! i))
           \<and> (\<forall>j<i. moveScore b (getAvailableMoves b ! j) < moveScore b (getAvailableMoves b ! i))"
proof -
  let ?ms = "getAvailableMoves b"
  let ?f = "moveScore b"
  have "\<not> ?f (hd ?ms) \<le> MinInt32"
    using minimax_bounds(1) [of "place b (fst (hd ?ms)) (snd (hd ?ms)) playerO" 0 False]
    by (simp add: moveScore_def)
  then have "\<not> (\<forall>m\<in>set ?ms. ?f m \<le> MinInt32)"
    using assms(1) hd_in_set by blast
  with select_spec [of ?f ?ms MinInt32 "(- 1, - 1)"]
  obtain i where i: "i < length ?ms"
      "select ?f ?ms MinInt32 (- 1, - 1) = (?f (?ms ! i), ?ms ! i)"
      "\<forall>j<length ?ms. ?f (?ms ! j) \<le> ?f (?ms ! i)"
      "\<forall>j<i. ?f (?ms ! j) < ?f (?ms ! i)"
    by blast
  have "fst (?ms ! i) \<in> {0, 1, 2}"
    using i(1) by (intro avail_fst_range [of _ b]) simp
  then have "fst (?ms ! i) \<noteq> - 1"
    by auto
  then have "findBestMove rnd b = (?ms ! i, [])"
    using assms(2) i(2) by (simp add: findBestMove_def Let_def best_loop_select)
  then show ?thesis
    using i by blast
qed

subsection \<open>Claims about findBestMove\<close>

text \<open>
  Claim C1. On a board with at least one and at most eight empty cells,
  \<open>findBestMove\<close> goes through the available moves in row-major order (the available
  moves are the empty cells of \<open>all_cells\<close>, in that order), scores each move by
  \<open>minimax\<close> with \<open>isMaximizing = False\<close> on the board with \<open>O\<close> placed there
  (\<open>moveScore\<close>), retracts the mark (the loop ends with the board it started with),
  and returns the first move attaining the maximal score: no move scores higher and
  every earlier move scores strictly lower.
\<close>

theorem findBestMove_first_maximum:
  assumes "1 \<le> length (getAvailableMoves b)" and "length (getAvailableMoves b) \<le> 8"
  shows "getAvailableMoves b = filter (\<lambda>(r, c). cell b r c = emptyCell) all_cells
         \<and> (\<exists>i<length (getAvailableMoves b).
               fst (findBestMove rnd b) = getAvailableMoves b ! i
               \<and> (\<forall>j<length (getAvailableMoves b).
                     moveScore b (getAvailableMoves b ! j) \<le> moveScore b (getAvailableMoves b ! i))
               \<and> (\<forall>j<i. moveScore b (getAvailableMoves b ! j) < moveScore b (getAvailableMoves b ! i)))
         \<and> snd (snd (best_loop b (getAvailableMoves b) MinInt32 (- 1, - 1))) = b"
proof -
  have "getAvailableMoves b \<noteq> []" "length (getAvailableMoves b) \<noteq> 9"
    using assms by auto
  from findBestMove_selected [OF this, of rnd] show ?thesis
    by (auto simp: getAvailableMoves_filter [symmetric] best_loop_select)
qed

theorem findBestMove_first_maximum_witness:
  "1 \<le> length (getAvailableMoves blockBoard) \<and> length (getAvailableMoves blockBoard) \<le> 8
   \<and> (\<exists>i<length (getAvailableMoves blockBoard).
         fst (findBestMove 0 blockBoard) = getAvailableMoves blockBoard ! i
         \<and> (\<forall>j<length (getAvailableMoves blockBoard).
               moveScore blockBoard (getAvailableMoves blockBoard ! j)
                 \<le> moveScore blockBoard (getAvailableMoves blockBoard ! i))
         \<and> (\<forall>j<i. moveScore blockBoard (getAvailableMoves blockBoard ! j)
                 < moveScore blockBoard (getAvailableMoves blockBoard ! i)))"
proof -
  have h1: "1 \<le> length (getAvailableMoves blockBoard)" by code_simp
  have h2: "length (getAvailableMoves blockBoard) \<le> 8" by code_simp
  from findBestMove_first_maximum [OF h1 h2, of 0] h1 h2 show ?thesis
    by blast
qed

text \<open>
  Claim C7. On a board with at least one occupied cell, two calls of \<open>findBestMove\<close>
  return the same result, whatever the random source yields.
\<close>

theorem findBestMove_deterministic:
  assumes "(r, c) \<in> set all_cells" and "cell b r c \<noteq> emptyCell"
  shows "findBestMove rnd1 b = findBestMove rnd2 b"
proof -
  have "length (filter (\<lambda>(i, j). cell b i j = emptyCell) all_cells) < length all_cells"
    using assms by (intro length_filter_less [of "(r, c)"]) simp_all
  then have ne9: "length (getAvailableMoves b) \<noteq> 9"
    by (simp add: getAvailableMoves_filter length_all_cells)
  show ?thesis
  proof (cases "getAvailableMoves b = []")
    case True
    then show ?thesis
      by (simp add: findBestMove_def)
  next
    case False
    from findBestMove_selected [OF False ne9, of rnd1] findBestMove_selected [OF False ne9, of rnd2]
    show ?thesis by auto
  qed
qed

theorem findBestMove_deterministic_witness:
  "(0, 0) \<in> set all_cells \<and> cell blockBoard 0 0 \<noteq> emptyCell
   \<and> findBestMove 0 blockBoard = findBestMove 7 blockBoard"
proof -
  have h1: "(0, 0) \<in> set all_cells" by code_simp
  have h2: "cell blockBoard 0 0 \<noteq> emptyCell" by code_simp
  from findBestMove_deterministic [OF h1 h2, of 0 7] h1 h2 show ?thesis
    by simp
qed

text \<open>
  Claim C8. With one to eight available moves the loop always records a best move
  (\<^verbatim>\<open>bestMove[0]\<close> is not \<open>-1\<close> after the loop), so the fallback branch is not entered
  and nothing is printed; with no available move \<open>findBestMove\<close> returns the sentinel
  \<open>(-1, -1)\<close>.
\<close>

theorem findBestMove_fallback:
  "(1 \<le> length (getAvailableMoves b) \<and> length (getAvailableMoves b) \<le> 8
      \<longrightarrow> fst (fst (snd (best_loop b (getAvailableMoves b) MinInt32 (- 1, - 1)))) \<noteq> - 1
          \<and> snd (findBestMove rnd b) = [])
   \<and> (getAvailableMoves b' = [] \<longrightarrow> fst (findBestMove rnd b') = (- 1, - 1))"
proof (intro conjI impI)
  assume a: "1 \<le> length (getAvailableMoves b) \<and> length (getAvailableMoves b) \<le> 8"
  then have "getAvailableMoves b \<noteq> []" "length (getAvailableMoves b) \<noteq> 9"
    by auto
  from findBestMove_selected [OF this, of rnd]
  obtain i where i: "i < length (getAvailableMoves b)"
      "findBestMove rnd b = (getAvailableMoves b ! i, [])"
      "select (moveScore b) (getAvailableMoves b) MinInt32 (- 1, - 1)
               = (moveScore b (getAvailableMoves b ! i), getAvailableMoves b ! i)"
    by blast
  have "fst (getAvailableMoves b ! i) \<in> {0, 1, 2}"
    using i(1) by (intro avail_fst_range [of _ b]) simp
  then show "fst (fst (snd (best_loop b (getAvailableMoves b) MinInt32 (- 1, - 1)))) \<noteq> - 1"
    using i(3) by (auto simp: best_loop_select)
  show "snd (findBestMove rnd b) = []"
    using i(2) by simp
next
  assume "getAvailableMoves b' = []"
  then show "fst (findBestMove rnd b') = (- 1, - 1)"
    by (simp add: findBestMove_def)
qed

theorem findBestMove_fallback_witness:
  "1 \<le> length (getAvailableMoves scenarioBoard) \<and> length (getAvailableMoves scenarioBoard) \<le> 8
   \<and> fst (fst (snd (best_loop scenarioBoard (getAvailableMoves scenarioBoard) MinInt32 (- 1, - 1)))) \<noteq> - 1
   \<and> snd (findBestMove 0 scenarioBoard) = []
   \<and> getAvailableMoves fullDrawBoard = []
   \<and> fst (findBestMove 0 fullDrawBoard) = (- 1, - 1)"
proof -
  have h1: "1 \<le> length (getAvailableMoves scenarioBoard) \<and> length (getAvailableMoves scenarioBoard) \<le> 8"
    by code_simp
  have h2: "getAvailableMoves fullDrawBoard = []"
    by code_simp
  from findBestMove_fallback [of scenarioBoard 0 fullDrawBoard] h1 h2 show ?thesis
    by blast
qed

text \<open>
  The scenario of claim C9 as stated fails: on \<open>[X,O,X / O,X,O / _,_,_]\<close> the human
  threatens both diagonals. \<open>findBestMove\<close> returns \<open>(2, 0)\<close>; the cell \<open>(2, 2)\<close> is
  still empty afterwards and the human completes the main diagonal there.
\<close>

theorem scenario_block_counterexample:
  "fst (findBestMove 0 scenarioBoard) = (2, 0)
   \<and> cell (place scenarioBoard 2 0 playerO) 2 2 = emptyCell
   \<and> checkWin (place (place scenarioBoard 2 0 playerO) 2 2 playerX) playerX"
  by code_simp

text \<open>
  Claim C9, amended. On the board \<open>[X,O,X / O,X,O / _,_,_]\<close> with the computer to move,
  the available moves are \<open>(2, 0)\<close>, \<open>(2, 1)\<close>, \<open>(2, 2)\<close> and each of them scores \<open>-10\<close>
  under the exhaustive search (no single move blocks both threats); \<open>findBestMove\<close>
  returns the first of them, \<open>(2, 0)\<close>, after which the human can complete the main
  diagonal at \<open>(2, 2)\<close>.
\<close>

theorem scenario_lost_position:
  "getAvailableMoves scenarioBoard = [(2, 0), (2, 1), (2, 2)]
   \<and> map (moveScore scenarioBoard) (getAvailableMoves scenarioBoard) = [- 10, - 10, - 10]
   \<and> fst (findBestMove rnd scenarioBoard) = (2, 0)
   \<and> checkWin (place (place scenarioBoard 2 0 playerO) 2 2 playerX) playerX"
proof -
  have a: "getAvailableMoves scenarioBoard = [(2, 0), (2, 1), (2, 2)]"
    by code_simp
  have s: "map (moveScore scenarioBoard) [(2, 0), (2, 1), (2, 2)] = [- 10, - 10, - 10]"
    by code_simp
  have w: "checkWin (place (place scenarioBoard 2 0 playerO) 2 2 playerX) playerX"
    by code_simp
  have ne: "getAvailableMoves scenarioBoard \<noteq> []" "length (getAvailableMoves scenarioBoard) \<noteq> 9"
    by (simp_all add: a)
  have all: "\<forall>m\<in>set (getAvailableMoves scenarioBoard). moveScore scenarioBoard m = - 10"
    using s by (simp add: a)
  from findBestMove_selected [OF ne, of rnd]
  obtain i where i: "i < length (getAvailableMoves scenarioBoard)"
     "findBestMove rnd scenarioBoard = (getAvailableMoves scenarioBoard ! i, [])"
     "\<forall>j<i. moveScore scenarioBoard (getAvailableMoves scenarioBoard ! j)
              < moveScore scenarioBoard (getAvailableMoves scenarioBoard ! i)"
    by blast
  have "i = 0"
  proof (rule ccontr)
    assume "i \<noteq> 0"
    then have "moveScore scenarioBoard (getAvailableMoves scenarioBoard ! 0)
              < moveScore scenarioBoard (getAvailableMoves scenarioBoard ! i)"
      using i(3) by blast
    moreover have "getAvailableMoves scenarioBoard ! 0 \<in> set (getAvailableMoves scenarioBoard)"
      "getAvailableMoves scenarioBoard ! i \<in> set (getAvailableMoves scenarioBoard)"
      using i(1) ne(1) by simp_all
    ultimately show False
      using all by simp
  qed
  then have "fst (findBestMove rnd scenarioBoard) = (2, 0)"
    using i(2) by (simp add: a)
  then show ?thesis
    using a s w by simp
qed

subsection \<open>Claims about evaluateBoard\<close>

text \<open>
  Claim C4. \<open>evaluateBoard\<close> returns one of \<open>-10\<close>, \<open>0\<close>, \<open>10\<close>; it returns \<open>10\<close>
  exactly when the computer's mark has a completed line, and \<open>-10\<close> exactly when the
  human's mark has a completed line, the computer's win being tested first: where
  both marks have a completed line the result is \<open>10\<close>, so \<open>-10\<close> is returned exactly
  when the human's mark has a line and the computer's mark has none.
\<close>

theorem evaluateBoard_values:
  "evaluateBoard b \<in> {- 10, 0, 10}
   \<and> (evaluateBoard b = 10 \<longleftrightarrow> checkWin b playerO)
   \<and> (evaluateBoard b = - 10 \<longleftrightarrow> checkWin b playerX \<and> \<not> checkWin b playerO)
   \<and> (checkWin b playerO \<and> checkWin b playerX \<longrightarrow> evaluateBoard b = 10)"
  by (simp add: evaluateBoard_def)

theorem evaluateBoard_values_witness:
  "checkWin bothLinesBoard playerO \<and> checkWin bothLinesBoard playerX
   \<and> evaluateBoard bothLinesBoard = 10"
proof -
  have h: "checkWin bothLinesBoard playerO \<and> checkWin bothLinesBoard playerX"
    by code_simp
  from evaluateBoard_values [of bothLinesBoard] h show ?thesis
    by blast
qed

section \<open>The value of the empty board\<close>

text \<open>
  The full game tree below the empty board has more than half a million nodes.
  Its value is bounded from both sides by strategies instead: a strategy for \<open>O\<close> that
  never loses shows that the value is at least \<open>0\<close>, a strategy for \<open>X\<close> that never
  loses shows that it is at most \<open>0\<close>. A strategy fixes one move (\<open>Play\<close>) where its
  owner is to move and answers every move (\<open>Reply\<close>, one entry per available move, in
  the order of \<open>getAvailableMoves\<close>) where the opponent is to move. \<open>secures\<close> checks a
  strategy against the program's own \<open>evaluateBoard\<close>, \<open>isBoardFull\<close>,
  \<open>getAvailableMoves\<close> and \<open>place\<close>.
\<close>

datatype strategy = Leaf | Play int int strategy | Reply "strategy list"

text \<open>The mark \<open>minimax\<close> places for the side to move.\<close>

definition mark :: "bool \<Rightarrow> string" where
  "mark isMaximizing = (if isMaximizing then playerO else playerX)"

text \<open>The bound a strategy secures: at least \<open>v\<close> for \<open>O\<close>, at most \<open>v\<close> for \<open>X\<close>.\<close>

definition within :: "bool \<Rightarrow> int \<Rightarrow> int \<Rightarrow> bool" where
  "within forO v score = (if forO then v \<le> score else score \<le> v)"

fun secures :: "bool \<Rightarrow> int \<Rightarrow> board \<Rightarrow> bool \<Rightarrow> strategy \<Rightarrow> bool"
  and secures_all :: "bool \<Rightarrow> int \<Rightarrow> board \<Rightarrow> bool \<Rightarrow> move list \<Rightarrow> strategy list \<Rightarrow> bool"
where
  "secures forO v b isMax Leaf = (terminal b \<and> within forO v (evaluateBoard b))"
| "secures forO v b isMax (Play r c s) =
     (if terminal b then within forO v (evaluateBoard b)
      else isMax = forO \<and> (r, c) \<in> set (getAvailableMoves b)
           \<and> secures forO v (place b r c (mark isMax)) (\<not> isMax) s)"
| "secures forO v b isMax (Reply ss) =
     (if terminal b then within forO v (evaluateBoard b)
      else isMax \<noteq> forO \<and> secures_all forO v b isMax (getAvailableMoves b) ss)"
| "secures_all forO v b isMax [] ss = True"
| "secures_all forO v b isMax (m # ms) [] = False"
| "secures_all forO v b isMax (m # ms) (s # ss) =
     (secures forO v (place b (fst m) (snd m) (mark isMax)) (\<not> isMax) s
      \<and> secures_all forO v b isMax ms ss)"

lemma within_terminal:
  "terminal b \<Longrightarrow> within forO v (evaluateBoard b) \<Longrightarrow> within forO v (minimax b d isMax)"
  by (simp add: minimax_def minimax_st_terminal)

lemma within_play:
  assumes "\<not> terminal b" and "m \<in> set (getAvailableMoves b)"
    and "within isMax v (minimax (place b (fst m) (snd m) (mark isMax)) (d + 1) (\<not> isMax))"
  shows "within isMax v (minimax b d isMax)"
proof (cases isMax)
  case True
  let ?S = "(\<lambda>m. minimax (place b (fst m) (snd m) playerO) (d + 1) False) ` set (getAvailableMoves b)"
  have "minimax (place b (fst m) (snd m) playerO) (d + 1) False \<le> Max ?S"
    using assms(2) by (intro Max_ge) simp_all
  then show ?thesis
    using assms(1,3) True by (simp add: within_def mark_def minimax_max_eq)
next
  case False
  let ?S = "(\<lambda>m. minimax (place b (fst m) (snd m) playerX) (d + 1) True) ` set (getAvailableMoves b)"
  have "Min ?S \<le> minimax (place b (fst m) (snd m) playerX) (d + 1) True"
    using assms(2) by (intro Min_le) simp_all
  then show ?thesis
    using assms(1,3) False by (simp add: within_def mark_def minimax_min_eq)
qed

lemma within_reply:
  assumes "\<not> terminal b"
    and "\<forall>m\<in>set (getAvailableMoves b).
           within (\<not> isMax) v (minimax (place b (fst m) (snd m) (mark isMax)) (d + 1) (\<not> isMax))"
  shows "within (\<not> isMax) v (minimax b d isMax)"
proof (cases isMax)
  case True
  let ?S = "(\<lambda>m. minimax (place b (fst m) (snd m) playerO) (d + 1) False) ` set (getAvailableMoves b)"
  have "finite ?S" "?S \<noteq> {}"
    using not_terminal_avail [OF assms(1)] by simp_all
  then have "Max ?S \<le> v \<longleftrightarrow> (\<forall>x\<in>?S. x \<le> v)"
    by (rule Max_le_iff)
  then show ?thesis
    using assms True by (simp add: within_def mark_def minimax_max_eq)
next
  case False
  let ?S = "(\<lambda>m. minimax (place b (fst m) (snd m) playerX) (d + 1) True) ` set (getAvailableMoves b)"
  have "finite ?S" "?S \<noteq> {}"
    using not_terminal_avail [OF assms(1)] by simp_all
  then have "v \<le> Min ?S \<longleftrightarrow> (\<forall>x\<in>?S. v \<le> x)"
    by (rule Min_ge_iff)
  then show ?thesis
    using assms False by (simp add: within_def mark_def minimax_min_eq)
qed

lemma secures_sound:
  "secures forO v b isMax s \<Longrightarrow> within forO v (minimax b d isMax)"
  "secures_all forO v b isMax ms ss \<Longrightarrow>
     \<forall>m\<in>set ms. within forO v (minimax (place b (fst m) (snd m) (mark isMax)) d (\<not> isMax))"
proof (induction forO v b isMax s and forO v b isMax ms ss arbitrary: d and d
       rule: secures_secures_all.induct)
  case (1 forO v b isMax)
  then show ?case by (simp add: within_terminal)
next
  case (2 forO v b isMax r c s)
  show ?case
  proof (cases "terminal b")
    case True
    then show ?thesis using "2.prems" by (simp add: within_terminal)
  next
    case False
    then have p: "isMax = forO" "(r, c) \<in> set (getAvailableMoves b)"
        "secures forO v (place b r c (mark isMax)) (\<not> isMax) s"
      using "2.prems" by auto
    have "within forO v (minimax (place b r c (mark isMax)) (d + 1) (\<not> isMax))"
      using "2.IH" [OF False p(3)] .
    then show ?thesis
      using within_play [OF False p(2), of isMax v d] p(1) by simp
  qed
next
  case (3 forO v b isMax ss)
  show ?case
  proof (cases "terminal b")
    case True
    then show ?thesis using "3.prems" by (simp add: within_terminal)
  next
    case False
    then have p: "isMax \<noteq> forO" "secures_all forO v b isMax (getAvailableMoves b) ss"
      using "3.prems" by auto
    have "\<forall>m\<in>set (getAvailableMoves b).
            within forO v (minimax (place b (fst m) (snd m) (mark isMax)) (d + 1) (\<not> isMax))"
      using "3.IH" [OF False p(2)] .
    then show ?thesis
      using within_reply [OF False, of isMax v d] p(1) by auto
  qed
next
  case (4 forO v b isMax ss)
  show ?case by simp
next
  case (5 forO v b isMax m ms)
  then show ?case by simp
next
  case (6 forO v b isMax m ms s ss)
  then show ?case by simp
qed

definition drawStrategyO :: strategy where
  "drawStrategyO =
     Play 0 0 (Reply [Play 1 0 (Reply [Play 2 0 Leaf, Play 2 0 Leaf, Play 2 0 Leaf, Play 1 1
     (Reply [Play 1 2 Leaf, Play 2 2 Leaf, Play 1 2 Leaf, Play 1 2 Leaf]), Play 2 0 Leaf,
     Play 2 0 Leaf]), Play 1 0 (Reply [Play 2 0 Leaf, Play 2 0 Leaf, Play 2 0 Leaf, Play 1 1
     (Reply [Play 1 2 Leaf, Play 2 2 Leaf, Play 1 2 Leaf, Play 1 2 Leaf]), Play 2 0 Leaf,
     Play 2 0 Leaf]), Play 0 1 (Reply [Play 1 1 (Reply [Play 2 1 Leaf, Play 2 1 Leaf, Play 2
     2 Leaf, Play 2 1 Leaf]), Play 0 2 Leaf, Play 0 2 Leaf, Play 0 2 Leaf, Play 0 2 Leaf,
     Play 0 2 Leaf]), Play 0 1 (Reply [Play 2 0 (Reply [Play 1 2 (Reply [Play 2 2 Leaf, Play
     2 1 Leaf]), Play 1 0 Leaf, Play 1 0 Leaf, Play 1 0 Leaf]), Play 0 2 Leaf, Play 0 2
     Leaf, Play 0 2 Leaf, Play 0 2 Leaf, Play 0 2 Leaf]), Play 0 2 (Reply [Play 1 1 (Reply
     [Play 2 0 Leaf, Play 2 2 Leaf, Play 2 0 Leaf, Play 2 0 Leaf]), Play 0 1 Leaf, Play 0 1
     Leaf, Play 0 1 Leaf, Play 0 1 Leaf, Play 0 1 Leaf]), Play 0 1 (Reply [Play 1 1 (Reply
     [Play 2 1 Leaf, Play 2 1 Leaf, Play 2 2 Leaf, Play 2 1 Leaf]), Play 0 2 Leaf, Play 0 2
     Leaf, Play 0 2 Leaf, Play 0 2 Leaf, Play 0 2 Leaf]), Play 0 2 (Reply [Play 1 1 (Reply
     [Play 2 0 Leaf, Play 2 0 Leaf, Play 2 2 Leaf, Play 2 0 Leaf]), Play 0 1 Leaf, Play 0 1
     Leaf, Play 0 1 Leaf, Play 0 1 Leaf, Play 0 1 Leaf]), Play 0 2 (Reply [Play 2 0 (Reply
     [Play 1 1 Leaf, Play 1 0 Leaf, Play 1 0 Leaf, Play 1 0 Leaf]), Play 0 1 Leaf, Play 0 1
     Leaf, Play 0 1 Leaf, Play 0 1 Leaf, Play 0 1 Leaf])])"

definition drawStrategyX :: strategy where
  "drawStrategyX =
     Reply [Play 1 1 (Reply [Play 0 2 (Reply [Play 2 0 Leaf, Play 2 0 Leaf, Play 1 0 (Reply
     [Play 2 1 (Reply [Leaf]), Play 1 2 Leaf, Play 1 2 Leaf]), Play 2 0 Leaf, Play 2 0
     Leaf]), Play 0 1 (Reply [Play 2 1 Leaf, Play 2 1 Leaf, Play 2 1 Leaf, Play 1 0 (Reply
     [Play 2 2 (Reply [Leaf]), Play 1 2 Leaf, Play 1 2 Leaf]), Play 2 1 Leaf]), Play 2 0
     (Reply [Play 0 2 Leaf, Play 0 1 (Reply [Play 2 1 Leaf, Play 1 2 (Reply [Leaf]), Play 2
     1 Leaf]), Play 0 2 Leaf, Play 0 2 Leaf, Play 0 2 Leaf]), Play 0 1 (Reply [Play 2 1
     Leaf, Play 2 1 Leaf, Play 2 1 Leaf, Play 2 0 (Reply [Play 2 2 (Reply [Leaf]), Play 0 2
     Leaf, Play 0 2 Leaf]), Play 2 1 Leaf]), Play 1 0 (Reply [Play 1 2 Leaf, Play 1 2 Leaf,
     Play 0 1 (Reply [Play 2 1 Leaf, Play 2 2 (Reply [Leaf]), Play 2 1 Leaf]), Play 1 2
     Leaf, Play 1 2 Leaf]), Play 1 0 (Reply [Play 1 2 Leaf, Play 1 2 Leaf, Play 0 2 (Reply
     [Play 2 0 Leaf, Play 2 2 (Reply [Leaf]), Play 2 0 Leaf]), Play 1 2 Leaf, Play 1 2
     Leaf]), Play 0 1 (Reply [Play 2 1 Leaf, Play 2 1 Leaf, Play 2 1 Leaf, Play 2 1 Leaf,
     Play 2 0 (Reply [Play 1 2 (Reply [Leaf]), Play 0 2 Leaf, Play 0 2 Leaf])])]), Play 1 1
     (Reply [Play 0 2 (Reply [Play 2 0 Leaf, Play 2 0 Leaf, Play 1 0 (Reply [Play 2 1 (Reply
     [Leaf]), Play 1 2 Leaf, Play 1 2 Leaf]), Play 2 0 Leaf, Play 2 0 Leaf]), Play 0 0
     (Reply [Play 2 2 Leaf, Play 2 2 Leaf, Play 2 2 Leaf, Play 2 2 Leaf, Play 1 2 (Reply
     [Play 2 0 (Reply [Leaf]), Play 1 0 Leaf, Play 1 0 Leaf])]), Play 0 0 (Reply [Play 2 2
     Leaf, Play 2 2 Leaf, Play 2 2 Leaf, Play 2 2 Leaf, Play 0 2 (Reply [Play 2 0 Leaf, Play
     2 1 (Reply [Leaf]), Play 2 0 Leaf])]), Play 0 0 (Reply [Play 2 2 Leaf, Play 2 2 Leaf,
     Play 2 2 Leaf, Play 2 2 Leaf, Play 0 2 (Reply [Play 2 0 Leaf, Play 2 1 (Reply [Leaf]),
     Play 2 0 Leaf])]), Play 1 0 (Reply [Play 1 2 Leaf, Play 1 2 Leaf, Play 2 2 (Reply [Play
     0 2 (Reply [Leaf]), Play 0 0 Leaf, Play 0 0 Leaf]), Play 1 2 Leaf, Play 1 2 Leaf]),
     Play 0 0 (Reply [Play 2 2 Leaf, Play 2 2 Leaf, Play 2 2 Leaf, Play 2 2 Leaf, Play 2 0
     (Reply [Play 1 0 Leaf, Play 0 2 Leaf, Play 0 2 Leaf])]), Play 1 0 (Reply [Play 1 2
     Leaf, Play 1 2 Leaf, Play 0 2 (Reply [Play 2 0 Leaf, Play 2 1 (Reply [Leaf]), Play 2 0
     Leaf]), Play 1 2 Leaf, Play 1 2 Leaf])]), Play 1 1 (Reply [Play 0 1 (Reply [Play 2 1
     Leaf, Play 2 1 Leaf, Play 2 1 Leaf, Play 1 0 (Reply [Play 2 2 (Reply [Leaf]), Play 1 2
     Leaf, Play 1 2 Leaf]), Play 2 1 Leaf]), Play 0 0 (Reply [Play 2 2 Leaf, Play 2 2 Leaf,
     Play 2 2 Leaf, Play 2 2 Leaf, Play 1 2 (Reply [Play 2 0 (Reply [Leaf]), Play 1 0 Leaf,
     Play 1 0 Leaf])]), Play 0 1 (Reply [Play 2 1 Leaf, Play 2 1 Leaf, Play 2 1 Leaf, Play 2
     2 (Reply [Play 2 0 (Reply [Leaf]), Play 0 0 Leaf, Play 0 0 Leaf]), Play 2 1 Leaf]),
     Play 2 2 (Reply [Play 0 1 (Reply [Play 2 1 Leaf, Play 2 1 Leaf, Play 1 0 (Reply
     [Leaf])]), Play 0 0 Leaf, Play 0 0 Leaf, Play 0 0 Leaf, Play 0 0 Leaf]), Play 0 1
     (Reply [Play 2 1 Leaf, Play 2 1 Leaf, Play 2 1 Leaf, Play 2 2 (Reply [Play 1 0 (Reply
     [Leaf]), Play 0 0 Leaf, Play 0 0 Leaf]), Play 2 1 Leaf]), Play 1 0 (Reply [Play 1 2
     Leaf, Play 1 2 Leaf, Play 2 2 (Reply [Play 0 1 (Reply [Leaf]), Play 0 0 Leaf, Play 0 0
     Leaf]), Play 1 2 Leaf, Play 1 2 Leaf]), Play 1 2 (Reply [Play 1 0 Leaf, Play 1 0 Leaf,
     Play 0 1 (Reply [Play 2 1 Leaf, Play 2 1 Leaf, Play 2 0 (Reply [Leaf])]), Play 1 0
     Leaf, Play 1 0 Leaf])]), Play 1 1 (Reply [Play 2 0 (Reply [Play 0 2 Leaf, Play 0 1
     (Reply [Play 2 1 Leaf, Play 1 2 (Reply [Leaf]), Play 2 1 Leaf]), Play 0 2 Leaf, Play 0
     2 Leaf, Play 0 2 Leaf]), Play 0 0 (Reply [Play 2 2 Leaf, Play 2 2 Leaf, Play 2 2 Leaf,
     Play 2 2 Leaf, Play 0 2 (Reply [Play 2 0 Leaf, Play 2 1 (Reply [Leaf]), Play 2 0
     Leaf])]), Play 0 1 (Reply [Play 2 1 Leaf, Play 2 1 Leaf, Play 2 1 Leaf, Play 2 2 (Reply
     [Play 2 0 (Reply [Leaf]), Play 0 0 Leaf, Play 0 0 Leaf]), Play 2 1 Leaf]), Play 0 0
     (Reply [Play 2 2 Leaf, Play 2 2 Leaf, Play 2 2 Leaf, Play 2 2 Leaf, Play 0 2 (Reply
     [Play 2 0 Leaf, Play 0 1 Leaf, Play 0 1 Leaf])]), Play 0 0 (Reply [Play 2 2 Leaf, Play
     2 2 Leaf, Play 2 2 Leaf, Play 2 2 Leaf, Play 2 1 (Reply [Play 0 2 (Reply [Leaf]), Play
     0 1 Leaf, Play 0 1 Leaf])]), Play 0 0 (Reply [Play 2 2 Leaf, Play 2 2 Leaf, Play 2 2
     Leaf, Play 2 2 Leaf, Play 2 0 (Reply [Play 0 2 Leaf, Play 1 2 (Reply [Leaf]), Play 0 2
     Leaf])]), Play 0 1 (Reply [Play 2 1 Leaf, Play 2 1 Leaf, Play 2 1 Leaf, Play 2 1 Leaf,
     Play 2 0 (Reply [Play 0 2 Leaf, Play 1 2 (Reply [Leaf]), Play 0 2 Leaf])])]), Play 0 0
     (Reply [Play 2 1 (Reply [Play 2 0 (Reply [Play 2 2 Leaf, Play 1 0 Leaf, Play 1 0
     Leaf]), Play 1 2 (Reply [Play 2 0 (Reply [Leaf]), Play 0 2 (Reply [Leaf]), Play 0 2
     (Reply [Leaf])]), Play 1 0 (Reply [Play 2 0 Leaf, Play 0 2 (Reply [Leaf]), Play 2 0
     Leaf]), Play 0 2 (Reply [Play 1 2 (Reply [Leaf]), Play 1 0 (Reply [Leaf]), Play 1 0
     (Reply [Leaf])]), Play 1 0 (Reply [Play 2 0 Leaf, Play 2 0 Leaf, Play 0 2 (Reply
     [Leaf])])]), Play 2 0 (Reply [Play 1 0 Leaf, Play 1 2 (Reply [Play 2 1 (Reply [Leaf]),
     Play 0 1 (Reply [Leaf]), Play 0 1 (Reply [Leaf])]), Play 1 0 Leaf, Play 1 0 Leaf, Play
     1 0 Leaf]), Play 1 2 (Reply [Play 2 1 (Reply [Play 2 0 (Reply [Leaf]), Play 0 2 (Reply
     [Leaf]), Play 0 2 (Reply [Leaf])]), Play 2 0 (Reply [Play 2 1 (Reply [Leaf]), Play 0 1
     (Reply [Leaf]), Play 0 1 (Reply [Leaf])]), Play 0 2 (Reply [Play 2 2 Leaf, Play 0 1
     Leaf, Play 0 1 Leaf]), Play 0 1 (Reply [Play 2 0 (Reply [Leaf]), Play 0 2 Leaf, Play 0
     2 Leaf]), Play 0 1 (Reply [Play 2 0 (Reply [Leaf]), Play 0 2 Leaf, Play 0 2 Leaf])]),
     Play 1 0 (Reply [Play 2 0 Leaf, Play 2 0 Leaf, Play 0 2 (Reply [Play 2 1 (Reply
     [Leaf]), Play 0 1 Leaf, Play 0 1 Leaf]), Play 2 0 Leaf, Play 2 0 Leaf]), Play 0 2
     (Reply [Play 2 1 (Reply [Play 1 2 (Reply [Leaf]), Play 1 0 (Reply [Leaf]), Play 1 0
     (Reply [Leaf])]), Play 0 1 Leaf, Play 0 1 Leaf, Play 0 1 Leaf, Play 0 1 Leaf]), Play 0
     1 (Reply [Play 2 0 (Reply [Play 1 2 (Reply [Leaf]), Play 1 0 Leaf, Play 1 0 Leaf]),
     Play 0 2 Leaf, Play 0 2 Leaf, Play 0 2 Leaf, Play 0 2 Leaf]), Play 0 2 (Reply [Play 2 1
     (Reply [Play 1 2 (Reply [Leaf]), Play 1 0 (Reply [Leaf]), Play 1 0 (Reply [Leaf])]),
     Play 0 1 Leaf, Play 0 1 Leaf, Play 0 1 Leaf, Play 0 1 Leaf])]), Play 1 1 (Reply [Play 0
     1 (Reply [Play 2 1 Leaf, Play 2 1 Leaf, Play 2 1 Leaf, Play 2 0 (Reply [Play 2 2 (Reply
     [Leaf]), Play 0 2 Leaf, Play 0 2 Leaf]), Play 2 1 Leaf]), Play 0 0 (Reply [Play 2 2
     Leaf, Play 2 2 Leaf, Play 2 2 Leaf, Play 2 2 Leaf, Play 0 2 (Reply [Play 2 0 Leaf, Play
     2 1 (Reply [Leaf]), Play 2 0 Leaf])]), Play 2 2 (Reply [Play 0 1 (Reply [Play 2 1 Leaf,
     Play 2 1 Leaf, Play 1 0 (Reply [Leaf])]), Play 0 0 Leaf, Play 0 0 Leaf, Play 0 0 Leaf,
     Play 0 0 Leaf]), Play 0 0 (Reply [Play 2 2 Leaf, Play 2 2 Leaf, Play 2 2 Leaf, Play 2 2
     Leaf, Play 0 2 (Reply [Play 2 0 Leaf, Play 0 1 Leaf, Play 0 1 Leaf])]), Play 0 1 (Reply
     [Play 2 1 Leaf, Play 2 1 Leaf, Play 2 1 Leaf, Play 2 2 (Reply [Play 1 0 (Reply [Leaf]),
     Play 0 0 Leaf, Play 0 0 Leaf]), Play 2 1 Leaf]), Play 0 2 (Reply [Play 2 0 Leaf, Play 2
     0 Leaf, Play 2 0 Leaf, Play 2 2 (Reply [Play 1 0 (Reply [Leaf]), Play 0 0 Leaf, Play 0
     0 Leaf]), Play 2 0 Leaf]), Play 0 2 (Reply [Play 2 0 Leaf, Play 2 0 Leaf, Play 2 0
     Leaf, Play 2 1 (Reply [Play 0 1 Leaf, Play 0 0 (Reply [Leaf]), Play 0 1 Leaf]), Play 2
     0 Leaf])]), Play 1 1 (Reply [Play 1 0 (Reply [Play 1 2 Leaf, Play 1 2 Leaf, Play 0 1
     (Reply [Play 2 1 Leaf, Play 2 2 (Reply [Leaf]), Play 2 1 Leaf]), Play 1 2 Leaf, Play 1
     2 Leaf]), Play 1 0 (Reply [Play 1 2 Leaf, Play 1 2 Leaf, Play 2 2 (Reply [Play 0 2
     (Reply [Leaf]), Play 0 0 Leaf, Play 0 0 Leaf]), Play 1 2 Leaf, Play 1 2 Leaf]), Play 0
     1 (Reply [Play 2 1 Leaf, Play 2 1 Leaf, Play 2 1 Leaf, Play 2 2 (Reply [Play 1 0 (Reply
     [Leaf]), Play 0 0 Leaf, Play 0 0 Leaf]), Play 2 1 Leaf]), Play 0 0 (Reply [Play 2 2
     Leaf, Play 2 2 Leaf, Play 2 2 Leaf, Play 2 2 Leaf, Play 2 1 (Reply [Play 0 2 (Reply
     [Leaf]), Play 0 1 Leaf, Play 0 1 Leaf])]), Play 0 1 (Reply [Play 2 1 Leaf, Play 2 1
     Leaf, Play 2 1 Leaf, Play 2 2 (Reply [Play 1 0 (Reply [Leaf]), Play 0 0 Leaf, Play 0 0
     Leaf]), Play 2 1 Leaf]), Play 2 2 (Reply [Play 1 0 (Reply [Play 1 2 Leaf, Play 1 2
     Leaf, Play 0 1 (Reply [Leaf])]), Play 0 0 Leaf, Play 0 0 Leaf, Play 0 0 Leaf, Play 0 0
     Leaf]), Play 2 1 (Reply [Play 0 1 Leaf, Play 1 0 (Reply [Play 1 2 Leaf, Play 1 2 Leaf,
     Play 0 2 (Reply [Leaf])]), Play 0 1 Leaf, Play 0 1 Leaf, Play 0 1 Leaf])]), Play 1 1
     (Reply [Play 1 0 (Reply [Play 1 2 Leaf, Play 1 2 Leaf, Play 0 2 (Reply [Play 2 0 Leaf,
     Play 2 2 (Reply [Leaf]), Play 2 0 Leaf]), Play 1 2 Leaf, Play 1 2 Leaf]), Play 0 0
     (Reply [Play 2 2 Leaf, Play 2 2 Leaf, Play 2 2 Leaf, Play 2 2 Leaf, Play 2 0 (Reply
     [Play 1 0 Leaf, Play 0 2 Leaf, Play 0 2 Leaf])]), Play 1 0 (Reply [Play 1 2 Leaf, Play
     1 2 Leaf, Play 2 2 (Reply [Play 0 1 (Reply [Leaf]), Play 0 0 Leaf, Play 0 0 Leaf]),
     Play 1 2 Leaf, Play 1 2 Leaf]), Play 0 0 (Reply [Play 2 2 Leaf, Play 2 2 Leaf, Play 2 2
     Leaf, Play 2 2 Leaf, Play 2 0 (Reply [Play 0 2 Leaf, Play 1 2 (Reply [Leaf]), Play 0 2
     Leaf])]), Play 0 2 (Reply [Play 2 0 Leaf, Play 2 0 Leaf, Play 2 0 Leaf, Play 2 2 (Reply
     [Play 1 0 (Reply [Leaf]), Play 0 0 Leaf, Play 0 0 Leaf]), Play 2 0 Leaf]), Play 2 2
     (Reply [Play 1 0 (Reply [Play 1 2 Leaf, Play 1 2 Leaf, Play 0 1 (Reply [Leaf])]), Play
     0 0 Leaf, Play 0 0 Leaf, Play 0 0 Leaf, Play 0 0 Leaf]), Play 2 0 (Reply [Play 0 2
     Leaf, Play 0 2 Leaf, Play 1 2 (Reply [Play 1 0 Leaf, Play 1 0 Leaf, Play 0 0 (Reply
     [Leaf])]), Play 0 2 Leaf, Play 0 2 Leaf])]), Play 1 1 (Reply [Play 0 1 (Reply [Play 2 1
     Leaf, Play 2 1 Leaf, Play 2 1 Leaf, Play 2 1 Leaf, Play 2 0 (Reply [Play 1 2 (Reply
     [Leaf]), Play 0 2 Leaf, Play 0 2 Leaf])]), Play 1 0 (Reply [Play 1 2 Leaf, Play 1 2
     Leaf, Play 0 2 (Reply [Play 2 0 Leaf, Play 2 1 (Reply [Leaf]), Play 2 0 Leaf]), Play 1
     2 Leaf, Play 1 2 Leaf]), Play 1 2 (Reply [Play 1 0 Leaf, Play 1 0 Leaf, Play 0 1 (Reply
     [Play 2 1 Leaf, Play 2 1 Leaf, Play 2 0 (Reply [Leaf])]), Play 1 0 Leaf, Play 1 0
     Leaf]), Play 0 1 (Reply [Play 2 1 Leaf, Play 2 1 Leaf, Play 2 1 Leaf, Play 2 1 Leaf,
     Play 2 0 (Reply [Play 0 2 Leaf, Play 1 2 (Reply [Leaf]), Play 0 2 Leaf])]), Play 0 2
     (Reply [Play 2 0 Leaf, Play 2 0 Leaf, Play 2 0 Leaf, Play 2 1 (Reply [Play 0 1 Leaf,
     Play 0 0 (Reply [Leaf]), Play 0 1 Leaf]), Play 2 0 Leaf]), Play 2 1 (Reply [Play 0 1
     Leaf, Play 1 0 (Reply [Play 1 2 Leaf, Play 1 2 Leaf, Play 0 2 (Reply [Leaf])]), Play 0
     1 Leaf, Play 0 1 Leaf, Play 0 1 Leaf]), Play 2 0 (Reply [Play 0 2 Leaf, Play 0 2 Leaf,
     Play 1 2 (Reply [Play 1 0 Leaf, Play 1 0 Leaf, Play 0 0 (Reply [Leaf])]), Play 0 2
     Leaf, Play 0 2 Leaf])])]"

lemma secures_O: "secures True 0 initializeBoard True drawStrategyO"
  by code_simp

lemma secures_X: "secures False 0 initializeBoard True drawStrategyX"
  by code_simp

text \<open>
  Claim C5. On the completely empty board, \<open>minimax\<close> with \<open>isMaximizing = True\<close> returns
  \<open>0\<close>, at any depth argument: with best play on both sides the game is a draw.
\<close>

theorem minimax_empty_board_draw: "minimax initializeBoard depth True = 0"
proof -
  have "0 \<le> minimax initializeBoard depth True"
    using secures_sound(1) [OF secures_O, of depth] by (simp add: within_def)
  moreover have "minimax initializeBoard depth True \<le> 0"
    using secures_sound(1) [OF secures_X, of depth] by (simp add: within_def)
  ultimately show ?thesis
    by simp
qed

end
